theory Spec2Isabelle
  imports Main "HOL-Library.Word"
begin

section \<open>JavaScript strings\<close>

text \<open>
  A JavaScript string is a sequence of UTF-16 code units; \<open>length\<close> counts code units.
  String literals of the source are written through \<open>js\<close>, which maps every character of
  an ASCII literal to its code unit.
\<close>

type_synonym jsstring = "16 word list"

definition js :: "string \<Rightarrow> jsstring" where
  "js s = map (\<lambda>c. of_nat (of_char c)) s"

text \<open>
  \<open>String.prototype.trim\<close> removes WhiteSpace and LineTerminator code points from both
  ends: TAB, LF, VT, FF, CR, SP, NBSP, U+1680, U+2000 to U+200A, LS, PS, U+202F, U+205F,
  U+3000 and the byte order mark. All of them are single code units.
\<close>

definition isWhiteSpace :: "16 word \<Rightarrow> bool" where
  "isWhiteSpace c \<longleftrightarrow>
     c = 0x09 \<or> c = 0x0A \<or> c = 0x0B \<or> c = 0x0C \<or> c = 0x0D \<or> c = 0x20 \<or> c = 0xA0 \<or>
     c = 0x1680 \<or> (0x2000 \<le> c \<and> c \<le> 0x200A) \<or> c = 0x2028 \<or> c = 0x2029 \<or>
     c = 0x202F \<or> c = 0x205F \<or> c = 0x3000 \<or> c = 0xFEFF"

definition trim :: "jsstring \<Rightarrow> jsstring" where
  "trim s = rev (dropWhile isWhiteSpace (rev (dropWhile isWhiteSpace s)))"

text \<open>\<open>s.includes(c)\<close> for a one-unit search string.\<close>

definition js_includes :: "jsstring \<Rightarrow> 16 word \<Rightarrow> bool" where
  "js_includes s c \<longleftrightarrow> c \<in> set s"

section \<open>Data model\<close>

text \<open>The \<open>Message\<close> interface of Discussion.tsx: id, content, username, created_at.\<close>

datatype Message = Message (msg_id: int) (msg_content: jsstring) (msg_username: jsstring)
  (msg_created_at: jsstring)

text \<open>What \<open>useAuth()\<close> hands to the components that are modelled here.\<close>

record User =
  user_username :: jsstring
  token :: jsstring

record auth =
  user :: "User option"
  isAuthenticated :: bool
  isLoading :: bool

subsection \<open>Requests and responses\<close>

datatype http_method = GET | POST

text \<open>
  The body handed to \<open>fetch\<close> is \<open>JSON.stringify\<close> of a value; the model keeps the value
  that is serialised.
\<close>

datatype json = JString jsstring | JObject "(jsstring \<times> json) list"

record request =
  url :: jsstring
  http_method :: http_method
  headers :: "(jsstring \<times> jsstring) list"
  body :: "json option"

text \<open>
  What a \<open>fetch\<close> comes back with: the promise rejects (\<open>NetworkError\<close>), or it resolves
  to a response with its \<open>ok\<close> flag and the outcome of \<open>response.json()\<close>, \<open>None\<close> when
  that promise rejects.
\<close>

datatype 'a response = NetworkError | Response bool "'a option"

text \<open>The template literal \<open>`Bearer ${user?.token}`\<close>: a missing user prints as undefined.\<close>

definition bearer :: "User option \<Rightarrow> jsstring" where
  "bearer u = js ''Bearer '' @ (case u of None \<Rightarrow> js ''undefined'' | Some v \<Rightarrow> token v)"

section \<open>Discussion.tsx\<close>

text \<open>The three \<open>useState\<close> cells of the component.\<close>

record discussion =
  messages :: "Message list"
  newMessage :: jsstring
  error :: jsstring

definition discussion_init :: discussion where
  "discussion_init = \<lparr>messages = [], newMessage = [], error = []\<rparr>"

subsection \<open>fetchMessages\<close>

text \<open>
  An \<open>async\<close> function is split at its \<open>await\<close>: the request it issues, and what it does
  to the component state once the outcome of the request is known.
\<close>

definition fetchMessages_request :: "User option \<Rightarrow> request" where
  "fetchMessages_request u =
     \<lparr>url = js ''http://localhost:5001/api/discussions'', http_method = GET,
      headers = [(js ''Authorization'', bearer u)], body = None\<rparr>"

definition fetchMessages_settle :: "Message list response \<Rightarrow> discussion \<Rightarrow> discussion" where
  "fetchMessages_settle r st =
     (case r of
        NetworkError \<Rightarrow> st\<lparr>error := js ''Failed to load messages''\<rparr>
      | Response ok parsed \<Rightarrow>
          if \<not> ok then st\<lparr>error := js ''Failed to load messages''\<rparr>
          else (case parsed of
                  None \<Rightarrow> st\<lparr>error := js ''Failed to load messages''\<rparr>
                | Some data \<Rightarrow> st\<lparr>messages := data\<rparr>))"

subsection \<open>handleSubmit\<close>

text \<open>
  \<open>e.preventDefault()\<close> acts on the DOM event only. \<open>None\<close> is the early return of
  line 49: no \<open>fetch\<close> is called.
\<close>

definition handleSubmit_request :: "User option \<Rightarrow> discussion \<Rightarrow> request option" where
  "handleSubmit_request u st =
     (if trim (newMessage st) = [] then None
      else Some \<lparr>url = js ''http://localhost:5001/api/discussions'', http_method = POST,
                 headers = [(js ''Content-Type'', js ''application/json''),
                            (js ''Authorization'', bearer u)],
                 body = Some (JObject [(js ''content'', JString (newMessage st))])\<rparr>)"

text \<open>
  After the \<open>await\<close>. The handler closes over the \<open>messages\<close> of the render in which the
  form was submitted (\<open>captured\<close>); the setters act on the state of the moment.
\<close>

definition handleSubmit_settle ::
    "Message list \<Rightarrow> Message response \<Rightarrow> discussion \<Rightarrow> discussion" where
  "handleSubmit_settle captured r st =
     (case r of
        NetworkError \<Rightarrow> st\<lparr>error := js ''Failed to send message''\<rparr>
      | Response ok parsed \<Rightarrow>
          if \<not> ok then st\<lparr>error := js ''Failed to send message''\<rparr>
          else (case parsed of
                  None \<Rightarrow> st\<lparr>error := js ''Failed to send message''\<rparr>
                | Some data \<Rightarrow> st\<lparr>messages := data # captured, newMessage := []\<rparr>))"

text \<open>A submission whose request is answered before anything else happens.\<close>

definition handleSubmit ::
    "User option \<Rightarrow> Message response \<Rightarrow> discussion \<Rightarrow> request list \<times> discussion" where
  "handleSubmit u r st =
     (case handleSubmit_request u st of
        None \<Rightarrow> ([], st)
      | Some q \<Rightarrow> ([q], handleSubmit_settle (messages st) r st))"

text \<open>The outcome a \<open>try\<close> block treats as success: \<open>ok\<close> and a body that parses.\<close>

definition succeeded :: "'a response \<Rightarrow> bool" where
  "succeeded r = (case r of Response True (Some _) \<Rightarrow> True | _ \<Rightarrow> False)"

subsection \<open>The component in the browser\<close>

text \<open>
  \<open>useEffect(f, deps)\<close> runs \<open>f\<close> after the first render and after every render whose
  dependencies differ from those of the previous one.
\<close>

definition deps_changed :: "'d option \<Rightarrow> 'd \<Rightarrow> bool" where
  "deps_changed prev d = (case prev of None \<Rightarrow> True | Some p \<Rightarrow> p \<noteq> d)"

datatype phase = NotMounted | Mounted | Unmounted

text \<open>A request that has been issued and not answered, with what its continuation closes over.\<close>

datatype pending = PendingFetch | PendingSend "Message list"

datatype outcome = FetchOutcome "Message list response" | SendOutcome "Message response"

text \<open>
  One instance of the component together with the part of the browser it talks to:
  the active intervals (handle, delay in milliseconds, the \<open>user\<close> the callback closes
  over), the requests issued so far and those still in flight.
\<close>

record world =
  view :: discussion
  phase :: phase
  ctx :: auth
  effect_deps :: "bool option"
  cleanup :: "nat option"
  timers :: "(nat \<times> nat \<times> User option) list"
  next_handle :: nat
  sent :: "request list"
  inflight :: "pending list"

definition world_init :: world where
  "world_init =
     \<lparr>view = discussion_init, phase = NotMounted,
      ctx = \<lparr>user = None, isAuthenticated = False, isLoading = True\<rparr>,
      effect_deps = None, cleanup = None, timers = [], next_handle = 0,
      sent = [], inflight = []\<rparr>"

definition setInterval :: "User option \<Rightarrow> nat \<Rightarrow> world \<Rightarrow> nat \<times> world" where
  "setInterval u ms w =
     (next_handle w,
      w\<lparr>timers := timers w @ [(next_handle w, ms, u)], next_handle := Suc (next_handle w)\<rparr>)"

definition clearInterval :: "nat \<Rightarrow> world \<Rightarrow> world" where
  "clearInterval h w = w\<lparr>timers := filter (\<lambda>t. fst t \<noteq> h) (timers w)\<rparr>"

text \<open>Calling \<open>fetchMessages\<close>: the request goes out, the continuation waits.\<close>

definition fetchMessages_call :: "User option \<Rightarrow> world \<Rightarrow> world" where
  "fetchMessages_call u w =
     w\<lparr>sent := sent w @ [fetchMessages_request u], inflight := inflight w @ [PendingFetch]\<rparr>"

text \<open>The function the effect of lines 38 to 45 returns, \<open>None\<close> for \<open>undefined\<close>.\<close>

definition run_cleanup :: "world \<Rightarrow> world" where
  "run_cleanup w =
     (case cleanup w of None \<Rightarrow> w | Some h \<Rightarrow> (clearInterval h w)\<lparr>cleanup := None\<rparr>)"

definition run_effect :: "auth \<Rightarrow> world \<Rightarrow> world" where
  "run_effect a w =
     (if isAuthenticated a then
        (let w1 = fetchMessages_call (user a) w;
             (h, w2) = setInterval (user a) 10000 w1
         in w2\<lparr>cleanup := Some h\<rparr>)
      else w\<lparr>cleanup := None\<rparr>)"

datatype event =
    Render auth
  | Unmount
  | Tick nat
  | Type jsstring
  | Submit
  | Settle nat outcome

text \<open>
  The form exists only in the authenticated view (lines 73 to 79 return the login
  hint otherwise), so typing and submitting need it.
\<close>

definition form_shown :: "world \<Rightarrow> bool" where
  "form_shown w \<longleftrightarrow> phase w = Mounted \<and> isAuthenticated (ctx w)"

definition remove_nth :: "nat \<Rightarrow> 'a list \<Rightarrow> 'a list" where
  "remove_nth i xs = take i xs @ drop (Suc i) xs"

text \<open>One step; \<open>None\<close> when the event cannot happen in the state.\<close>

definition step :: "world \<Rightarrow> event \<Rightarrow> world option" where
  "step w e =
     (case e of
        Render a \<Rightarrow>
          if phase w = Unmounted then None
          else
            (let w1 = w\<lparr>phase := Mounted, ctx := a\<rparr>
             in if deps_changed (effect_deps w1) (isAuthenticated a)
                then Some ((run_effect a (run_cleanup w1))\<lparr>effect_deps := Some (isAuthenticated a)\<rparr>)
                else Some w1)
      | Unmount \<Rightarrow>
          if phase w = Mounted then Some ((run_cleanup w)\<lparr>phase := Unmounted\<rparr>) else None
      | Tick h \<Rightarrow>
          (case find (\<lambda>t. fst t = h) (timers w) of
             None \<Rightarrow> None
           | Some (_, _, u) \<Rightarrow> Some (fetchMessages_call u w))
      | Type s \<Rightarrow>
          if form_shown w then Some (w\<lparr>view := (view w)\<lparr>newMessage := s\<rparr>\<rparr>) else None
      | Submit \<Rightarrow>
          if form_shown w then
            (case handleSubmit_request (user (ctx w)) (view w) of
               None \<Rightarrow> Some w
             | Some q \<Rightarrow>
                 Some (w\<lparr>sent := sent w @ [q],
                         inflight := inflight w @ [PendingSend (messages (view w))]\<rparr>))
          else None
      | Settle i out \<Rightarrow>
          if i < length (inflight w) then
            (case (inflight w ! i, out) of
               (PendingFetch, FetchOutcome r) \<Rightarrow>
                 Some (w\<lparr>view := fetchMessages_settle r (view w),
                         inflight := remove_nth i (inflight w)\<rparr>)
             | (PendingSend captured, SendOutcome r) \<Rightarrow>
                 Some (w\<lparr>view := handleSubmit_settle captured r (view w),
                         inflight := remove_nth i (inflight w)\<rparr>)
             | _ \<Rightarrow> None)
          else None)"

fun run :: "world \<Rightarrow> event list \<Rightarrow> world option" where
  "run w [] = Some w"
| "run w (e # es) = (case step w e of None \<Rightarrow> None | Some w' \<Rightarrow> run w' es)"

section \<open>login/page.tsx\<close>

text \<open>The \<open>useState\<close> cells of the page; \<open>login_error\<close> is the cell named \<open>error\<close>.\<close>

record login_page =
  isLogin :: bool
  username :: jsstring
  email :: jsstring
  password :: jsstring
  login_error :: jsstring

definition login_page_init :: login_page where
  "login_page_init =
     \<lparr>isLogin = True, username = [], email = [], password = [], login_error = []\<rparr>"

text \<open>\<open>validateForm\<close> returns its verdict; \<open>setError\<close> is the change of the state.\<close>

definition validateForm :: "login_page \<Rightarrow> bool \<times> login_page" where
  "validateForm f =
     (if username f = [] \<or> length (trim (username f)) < 3 then
        (False, f\<lparr>login_error := js ''Username must be at least 3 characters long''\<rparr>)
      else if password f = [] \<or> length (password f) < 6 then
        (False, f\<lparr>login_error := js ''Password must be at least 6 characters long''\<rparr>)
      else if \<not> isLogin f \<and> (email f = [] \<or> \<not> js_includes (email f) 0x40) then
        (False, f\<lparr>login_error := js ''Please enter a valid email address''\<rparr>)
      else (True, f))"

text \<open>
  \<open>login\<close> and \<open>register\<close> belong to the auth context; the page sees only whether the
  promise resolves or rejects, and in the latter case \<open>err.message\<close> (\<open>None\<close> when it is
  undefined).
\<close>

datatype auth_outcome = Resolved | Rejected "jsstring option"

datatype page_effect =
    CallLogin jsstring jsstring
  | CallRegister jsstring jsstring jsstring
  | RouterPush jsstring

definition LoginPage_handleSubmit ::
    "auth_outcome \<Rightarrow> login_page \<Rightarrow> page_effect list \<times> login_page" where
  "LoginPage_handleSubmit out f0 =
     (let (valid, f) = validateForm (f0\<lparr>login_error := []\<rparr>)
      in if \<not> valid then ([], f)
         else
           (let call = (if isLogin f then CallLogin (username f) (password f)
                        else CallRegister (username f) (email f) (password f));
                fallback = (if isLogin f then js ''Invalid username or password''
                            else js ''Registration failed'')
            in case out of
                 Resolved \<Rightarrow> ([call, RouterPush (js ''/'')], f)
               | Rejected m \<Rightarrow>
                   ([call],
                    f\<lparr>login_error :=
                        (case m of None \<Rightarrow> fallback
                         | Some t \<Rightarrow> if t = [] then fallback else t)\<rparr>)))"

section \<open>app/page.tsx\<close>

datatype tab = TabMarket | TabDiscussion

datatype home_view = Spinner | Nothing | Dashboard tab

text \<open>
  Of the cells of \<open>Home\<close> only \<open>activeTab\<close> reaches the part modelled here;
  \<open>home_deps\<close> holds the dependencies \<open>[isAuthenticated, router]\<close> of the last effect
  run, the router object by its identity.
\<close>

record home =
  activeTab :: tab
  home_deps :: "(bool \<times> nat) option"

definition home_init :: home where
  "home_init = \<lparr>activeTab = TabMarket, home_deps = None\<rparr>"

text \<open>Lines 52 to 70: what the function returns.\<close>

definition Home_view :: "auth \<Rightarrow> home \<Rightarrow> home_view" where
  "Home_view a h =
     (if isLoading a then Spinner
      else if \<not> isAuthenticated a then Nothing
      else Dashboard (activeTab h))"

text \<open>Lines 46 to 50: the body of the effect, as the navigations it asks for.\<close>

definition Home_effect :: "auth \<Rightarrow> jsstring list" where
  "Home_effect a = (if \<not> isAuthenticated a then [js ''/login''] else [])"

text \<open>One render: the view, the navigations of this render, the next state.\<close>

definition Home_render :: "auth \<Rightarrow> nat \<Rightarrow> home \<Rightarrow> home_view \<times> jsstring list \<times> home" where
  "Home_render a router h =
     (Home_view a h,
      if deps_changed (home_deps h) (isAuthenticated a, router)
      then (Home_effect a, h\<lparr>home_deps := Some (isAuthenticated a, router)\<rparr>)
      else ([], h))"

fun Home_run :: "home \<Rightarrow> (auth \<times> nat) list \<Rightarrow> (home_view \<times> jsstring list) list" where
  "Home_run h [] = []"
| "Home_run h ((a, router) # rs) =
     (case Home_render a router h of (v, p, h') \<Rightarrow> (v, p) # Home_run h' rs)"

text \<open>The state after a sequence of renders.\<close>

fun Home_after :: "home \<Rightarrow> (auth \<times> nat) list \<Rightarrow> home" where
  "Home_after h [] = h"
| "Home_after h ((a, router) # rs) = Home_after (snd (snd (Home_render a router h))) rs"

section \<open>Invariants\<close>

text \<open>
  The interval of the effect is registered exactly while the component is mounted with
  an authenticated viewer, and the cleanup of the effect holds its handle.
\<close>

definition timer_inv :: "world \<Rightarrow> bool" where
  "timer_inv w \<longleftrightarrow>
     (if form_shown w
      then effect_deps w = Some True \<and>
           (\<exists>h u. cleanup w = Some h \<and> timers w = [(h, 10000, u)])
      else cleanup w = None \<and> timers w = [] \<and>
           (phase w = Mounted \<longrightarrow> effect_deps w = Some False) \<and>
           (phase w = NotMounted \<longrightarrow> effect_deps w = None))"

section \<open>Properties of the string functions\<close>

lemma trim_empty_iff: "trim s = [] \<longleftrightarrow> list_all isWhiteSpace s"
proof -
  let ?d = "dropWhile isWhiteSpace s"
  have "trim s = [] \<longleftrightarrow> (\<forall>x \<in> set ?d. isWhiteSpace x)"
    by (simp add: trim_def)
  also have "\<dots> \<longleftrightarrow> ?d = []"
  proof
    assume all: "\<forall>x \<in> set ?d. isWhiteSpace x"
    show "?d = []"
    proof (rule ccontr)
      assume ne: "?d \<noteq> []"
      then have "\<not> isWhiteSpace (hd ?d)" by (rule hd_dropWhile)
      moreover from ne have "hd ?d \<in> set ?d" by simp
      ultimately show False using all by blast
    qed
  next
    assume "?d = []"
    then show "\<forall>x \<in> set ?d. isWhiteSpace x" by (simp only: list.set ball_empty)
  qed
  also have "\<dots> \<longleftrightarrow> list_all isWhiteSpace s"
    by (simp add: list_all_iff)
  finally show ?thesis .
qed

lemma succeeded_iff: "succeeded r \<longleftrightarrow> (\<exists>d. r = Response True (Some d))"
  by (cases r) (auto simp: succeeded_def split: option.splits bool.splits)

section \<open>Discussion.tsx: the two operations\<close>

lemma fetchMessages_settle_failed:
  "\<not> succeeded r \<Longrightarrow> fetchMessages_settle r st = st\<lparr>error := js ''Failed to load messages''\<rparr>"
  by (cases r) (auto simp: fetchMessages_settle_def succeeded_def split: option.splits)

lemma handleSubmit_settle_failed:
  "\<not> succeeded r \<Longrightarrow>
   handleSubmit_settle c r st = st\<lparr>error := js ''Failed to send message''\<rparr>"
  by (cases r) (auto simp: handleSubmit_settle_def succeeded_def split: option.splits)

lemma handleSubmit_request_blank:
  "list_all isWhiteSpace (newMessage st) \<Longrightarrow> handleSubmit_request u st = None"
  by (simp add: handleSubmit_request_def trim_empty_iff)

lemma handleSubmit_request_text:
  "\<not> list_all isWhiteSpace (newMessage st) \<Longrightarrow>
   handleSubmit_request u st =
     Some \<lparr>url = js ''http://localhost:5001/api/discussions'', http_method = POST,
           headers = [(js ''Content-Type'', js ''application/json''),
                      (js ''Authorization'', bearer u)],
           body = Some (JObject [(js ''content'', JString (newMessage st))])\<rparr>"
  by (simp add: handleSubmit_request_def trim_empty_iff)

text \<open>
  C1. When the input field is empty or holds only whitespace, submitting the form issues
  no request and returns the component state as it was: the message list, the input
  field and the error string are unchanged.
\<close>

theorem blank_submit_does_nothing:
  assumes "list_all isWhiteSpace (newMessage st)"
  shows "handleSubmit_request u st = None \<and> handleSubmit u r st = ([], st) \<and>
         messages (snd (handleSubmit u r st)) = messages st \<and>
         newMessage (snd (handleSubmit u r st)) = newMessage st \<and>
         error (snd (handleSubmit u r st)) = error st"
  using assms by (simp add: handleSubmit_def handleSubmit_request_blank)

theorem blank_submit_does_nothing_witness:
  "list_all isWhiteSpace (newMessage \<lparr>messages = [], newMessage = [0x20, 0x09, 0x3000], error = []\<rparr>) \<and>
   handleSubmit None NetworkError \<lparr>messages = [], newMessage = [0x20, 0x09, 0x3000], error = []\<rparr> =
     ([], \<lparr>messages = [], newMessage = [0x20, 0x09, 0x3000], error = []\<rparr>)"
proof -
  have h: "list_all isWhiteSpace
             (newMessage \<lparr>messages = [], newMessage = [0x20, 0x09, 0x3000], error = []\<rparr>)"
    by (simp add: isWhiteSpace_def)
  from blank_submit_does_nothing [OF h, of None NetworkError] h show ?thesis by blast
qed

text \<open>
  C2. For an input that is not blank, a POST that succeeds with message \<open>m\<close> puts \<open>m\<close>
  in front of the message list, the previous list following unchanged, and empties the
  input field; exactly one request, a POST to /api/discussions, is issued. The same holds
  when other state changes arrive before the answer: the tail is the list of the moment
  of submission.
\<close>

theorem successful_send_prepends_and_clears:
  assumes "\<not> list_all isWhiteSpace (newMessage st)"
  shows "(\<exists>q. handleSubmit u (Response True (Some m)) st =
               ([q], st\<lparr>messages := m # messages st, newMessage := []\<rparr>) \<and>
              http_method q = POST \<and> url q = js ''http://localhost:5001/api/discussions'') \<and>
         messages (snd (handleSubmit u (Response True (Some m)) st)) = m # messages st \<and>
         newMessage (snd (handleSubmit u (Response True (Some m)) st)) = [] \<and>
         messages (handleSubmit_settle (messages st) (Response True (Some m)) st') =
           m # messages st \<and>
         newMessage (handleSubmit_settle (messages st) (Response True (Some m)) st') = []"
  using assms
  by (simp add: handleSubmit_def handleSubmit_request_text handleSubmit_settle_def)

theorem successful_send_prepends_and_clears_witness:
  "\<not> list_all isWhiteSpace (newMessage \<lparr>messages = [Message 1 [0x61] [0x62] []], newMessage = [0x20, 0x68, 0x69], error = []\<rparr>) \<and>
   snd (handleSubmit None (Response True (Some (Message 2 [0x20, 0x68, 0x69] [0x62] [])))
          \<lparr>messages = [Message 1 [0x61] [0x62] []], newMessage = [0x20, 0x68, 0x69], error = []\<rparr>) =
     \<lparr>messages = [Message 2 [0x20, 0x68, 0x69] [0x62] [], Message 1 [0x61] [0x62] []],
      newMessage = [], error = []\<rparr>"
proof -
  let ?st = "\<lparr>messages = [Message 1 [0x61] [0x62] []], newMessage = [0x20, 0x68, 0x69], error = []\<rparr>"
  have h: "\<not> list_all isWhiteSpace (newMessage ?st)"
    by (simp add: isWhiteSpace_def)
  from successful_send_prepends_and_clears
         [OF h, of None "Message 2 [0x20, 0x68, 0x69] [0x62] []" ?st]
  obtain q where "handleSubmit None (Response True (Some (Message 2 [0x20, 0x68, 0x69] [0x62] []))) ?st =
      ([q], ?st\<lparr>messages := Message 2 [0x20, 0x68, 0x69] [0x62] [] # messages ?st, newMessage := []\<rparr>)"
    by blast
  with h show ?thesis by simp
qed

text \<open>
  C3. When \<open>fetchMessages\<close> fails (the request is rejected, the response is not ok, or
  its body does not parse), the message list and the input field stay as they were and
  the error string becomes "Failed to load messages".
\<close>

theorem failed_fetch_keeps_messages:
  "fetchMessages_settle NetworkError st = st\<lparr>error := js ''Failed to load messages''\<rparr> \<and>
   fetchMessages_settle (Response False p) st = st\<lparr>error := js ''Failed to load messages''\<rparr> \<and>
   fetchMessages_settle (Response True None) st = st\<lparr>error := js ''Failed to load messages''\<rparr> \<and>
   messages (fetchMessages_settle NetworkError st) = messages st \<and>
   messages (fetchMessages_settle (Response False p) st) = messages st \<and>
   messages (fetchMessages_settle (Response True None) st) = messages st \<and>
   error (fetchMessages_settle NetworkError st) = js ''Failed to load messages'' \<and>
   error (fetchMessages_settle (Response False p) st) = js ''Failed to load messages'' \<and>
   error (fetchMessages_settle (Response True None) st) = js ''Failed to load messages''"
  by (simp add: fetchMessages_settle_def)

text \<open>
  C4. When the GET succeeds with the array \<open>data\<close>, the message list becomes exactly
  \<open>data\<close>, whatever it was before, and nothing else changes; so a message of the old
  list is in the new one only when the response holds it.
\<close>

theorem successful_fetch_replaces_messages:
  "fetchMessages_settle (Response True (Some data)) st = st\<lparr>messages := data\<rparr> \<and>
   messages (fetchMessages_settle (Response True (Some data)) st) = data \<and>
   set (messages (fetchMessages_settle (Response True (Some data)) st)) \<inter> set (messages st)
     = set data \<inter> set (messages st)"
  by (simp add: fetchMessages_settle_def)

text \<open>
  C8. For an input that is not blank, a POST that fails sets the error string to
  "Failed to send message" and changes nothing else: the input field keeps the typed
  text and the message list stays.
\<close>

theorem failed_send_keeps_input:
  assumes "\<not> list_all isWhiteSpace (newMessage st)" and "\<not> succeeded r"
  shows "(\<exists>q. handleSubmit u r st = ([q], st\<lparr>error := js ''Failed to send message''\<rparr>)) \<and>
         error (snd (handleSubmit u r st)) = js ''Failed to send message'' \<and>
         newMessage (snd (handleSubmit u r st)) = newMessage st \<and>
         messages (snd (handleSubmit u r st)) = messages st \<and>
         handleSubmit_settle c r st' = st'\<lparr>error := js ''Failed to send message''\<rparr>"
  using assms
  by (simp add: handleSubmit_def handleSubmit_request_text handleSubmit_settle_failed)

theorem failed_send_keeps_input_witness:
  "\<not> list_all isWhiteSpace (newMessage \<lparr>messages = [], newMessage = [0x68, 0x69], error = []\<rparr>) \<and>
   \<not> succeeded (Response False (None :: Message option)) \<and>
   snd (handleSubmit None (Response False None) \<lparr>messages = [], newMessage = [0x68, 0x69], error = []\<rparr>) =
     \<lparr>messages = [], newMessage = [0x68, 0x69], error = js ''Failed to send message''\<rparr>"
proof -
  let ?st = "\<lparr>messages = [], newMessage = [0x68, 0x69], error = []\<rparr>"
  have h1: "\<not> list_all isWhiteSpace (newMessage ?st)"
    by (simp add: isWhiteSpace_def)
  have h2: "\<not> succeeded (Response False (None :: Message option))"
    by (simp add: succeeded_def)
  from failed_send_keeps_input [OF h1 h2, of None]
  obtain q where "handleSubmit None (Response False None) ?st =
      ([q], ?st\<lparr>error := js ''Failed to send message''\<rparr>)"
    by blast
  with h1 h2 show ?thesis by simp
qed

text \<open>
  C10. For an input that is not blank after trimming, the body of the POST holds the
  input string as typed; trimming is used for the emptiness test only, so an input with
  leading or trailing whitespace is not sent in its trimmed form.
\<close>

theorem post_body_is_untrimmed_input:
  assumes "trim (newMessage st) \<noteq> []"
  shows "\<exists>q. handleSubmit_request u st = Some q \<and> http_method q = POST \<and>
             body q = Some (JObject [(js ''content'', JString (newMessage st))]) \<and>
             (trim (newMessage st) \<noteq> newMessage st \<longrightarrow>
              body q \<noteq> Some (JObject [(js ''content'', JString (trim (newMessage st)))]))"
  using assms by (simp add: handleSubmit_request_def)

theorem post_body_is_untrimmed_input_witness:
  "trim (newMessage \<lparr>messages = [], newMessage = [0x20, 0x68, 0x69, 0x20], error = []\<rparr>) = [0x68, 0x69] \<and>
   (\<exists>q. handleSubmit_request None \<lparr>messages = [], newMessage = [0x20, 0x68, 0x69, 0x20], error = []\<rparr> = Some q \<and>
        body q = Some (JObject [(js ''content'', JString [0x20, 0x68, 0x69, 0x20])]) \<and>
        body q \<noteq> Some (JObject [(js ''content'', JString [0x68, 0x69])]))"
proof -
  let ?st = "\<lparr>messages = [], newMessage = [0x20, 0x68, 0x69, 0x20], error = []\<rparr>"
  have t: "trim (newMessage ?st) = [0x68, 0x69]"
    by (simp add: trim_def isWhiteSpace_def)
  then have h: "trim (newMessage ?st) \<noteq> []" by simp
  from post_body_is_untrimmed_input [OF h, of None] t show ?thesis
    by auto
qed

section \<open>login/page.tsx: validation\<close>

lemma length_trim_le: "length (trim s) \<le> length s"
proof -
  have "length (trim s) \<le> length (dropWhile isWhiteSpace s)"
    unfolding trim_def using length_dropWhile_le [of isWhiteSpace "rev (dropWhile isWhiteSpace s)"]
    by simp
  also have "\<dots> \<le> length s" by (rule length_dropWhile_le)
  finally show ?thesis .
qed

lemma validateForm_verdict:
  "fst (validateForm f) \<longleftrightarrow>
     3 \<le> length (trim (username f)) \<and> 6 \<le> length (password f) \<and>
     (isLogin f \<or> js_includes (email f) 0x40)"
  by (auto simp: validateForm_def js_includes_def trim_def)

lemma validateForm_ignores_error:
  "fst (validateForm (f\<lparr>login_error := x\<rparr>)) = fst (validateForm f)"
  by (simp add: validateForm_def)

lemma validateForm_error:
  "\<not> fst (validateForm f) \<Longrightarrow>
   login_error (snd (validateForm f)) \<in>
     {js ''Username must be at least 3 characters long'',
      js ''Password must be at least 6 characters long'',
      js ''Please enter a valid email address''}"
  by (auto simp: validateForm_def)

lemma LoginPage_handleSubmit_invalid:
  "\<not> fst (validateForm f) \<Longrightarrow>
   LoginPage_handleSubmit out f = ([], snd (validateForm (f\<lparr>login_error := []\<rparr>)))"
proof -
  assume n: "\<not> fst (validateForm f)"
  obtain v g where vg: "validateForm (f\<lparr>login_error := []\<rparr>) = (v, g)"
    by (cases "validateForm (f\<lparr>login_error := []\<rparr>)")
  with n validateForm_ignores_error [where f = f and x = "[]"] have "\<not> v" by simp
  with vg show ?thesis by (simp add: LoginPage_handleSubmit_def)
qed

lemma LoginPage_handleSubmit_calls:
  "fst (LoginPage_handleSubmit out f) \<noteq> [] \<longleftrightarrow> fst (validateForm f)"
proof -
  obtain v g where vg: "validateForm (f\<lparr>login_error := []\<rparr>) = (v, g)"
    by (cases "validateForm (f\<lparr>login_error := []\<rparr>)")
  with validateForm_ignores_error [where f = f and x = "[]"] have "v = fst (validateForm f)"
    by simp
  with vg show ?thesis
    by (simp add: LoginPage_handleSubmit_def Let_def split: auth_outcome.splits)
qed

text \<open>
  C6. Validation passes, and \<open>login\<close> or \<open>register\<close> is called, only if the username
  has at least 3 code units, the password at least 6 and, in registration mode, the email
  contains "@"; in login mode the email field is not read; a form that fails one of
  these checks gets an inline error and no call is made. (The username is measured
  after trimming, so the test of the code is the stronger one.)
\<close>

theorem validation_gates_auth_call:
  "(fst (validateForm f) \<longrightarrow>
      3 \<le> length (username f) \<and> 6 \<le> length (password f) \<and>
      (\<not> isLogin f \<longrightarrow> js_includes (email f) 0x40)) \<and>
   (fst (LoginPage_handleSubmit out f) \<noteq> [] \<longrightarrow>
      fst (validateForm f) \<and>
      3 \<le> length (username f) \<and> 6 \<le> length (password f) \<and>
      (\<not> isLogin f \<longrightarrow> js_includes (email f) 0x40)) \<and>
   (isLogin f \<longrightarrow>
      fst (validateForm (f\<lparr>email := e\<rparr>)) = fst (validateForm f) \<and>
      fst (LoginPage_handleSubmit out (f\<lparr>email := e\<rparr>)) = fst (LoginPage_handleSubmit out f)) \<and>
   (length (username f) < 3 \<or> length (password f) < 6 \<or>
    (\<not> isLogin f \<and> \<not> js_includes (email f) 0x40) \<longrightarrow>
      \<not> fst (validateForm f)) \<and>
   (\<not> fst (validateForm f) \<longrightarrow>
      fst (LoginPage_handleSubmit out f) = [] \<and>
      login_error (snd (LoginPage_handleSubmit out f)) \<in>
        {js ''Username must be at least 3 characters long'',
         js ''Password must be at least 6 characters long'',
         js ''Please enter a valid email address''} \<and>
      login_error (snd (LoginPage_handleSubmit out f)) \<noteq> [])"
proof -
  have len: "length (trim (username f)) \<le> length (username f)"
    by (rule length_trim_le)
  have a: "fst (validateForm f) \<Longrightarrow>
      3 \<le> length (username f) \<and> 6 \<le> length (password f) \<and>
      (\<not> isLogin f \<longrightarrow> js_includes (email f) 0x40)"
    using len by (auto simp: validateForm_verdict)
  have c: "isLogin f \<Longrightarrow>
      fst (validateForm (f\<lparr>email := e\<rparr>)) = fst (validateForm f) \<and>
      fst (LoginPage_handleSubmit out (f\<lparr>email := e\<rparr>)) = fst (LoginPage_handleSubmit out f)"
    by (simp add: LoginPage_handleSubmit_def validateForm_def Let_def split: auth_outcome.splits)
  have d: "\<not> fst (validateForm f) \<Longrightarrow>
      fst (LoginPage_handleSubmit out f) = [] \<and>
      login_error (snd (LoginPage_handleSubmit out f)) \<in>
        {js ''Username must be at least 3 characters long'',
         js ''Password must be at least 6 characters long'',
         js ''Please enter a valid email address''} \<and>
      login_error (snd (LoginPage_handleSubmit out f)) \<noteq> []"
  proof -
    assume n: "\<not> fst (validateForm f)"
    let ?g = "f\<lparr>login_error := []\<rparr>"
    from n have n': "\<not> fst (validateForm ?g)" by (simp add: validateForm_ignores_error)
    have e: "login_error (snd (validateForm ?g)) \<in>
        {js ''Username must be at least 3 characters long'',
         js ''Password must be at least 6 characters long'',
         js ''Please enter a valid email address''}"
      using n' by (rule validateForm_error)
    then have "login_error (snd (validateForm ?g)) \<noteq> []"
      by (auto simp: js_def)
    with e n show ?thesis by (simp add: LoginPage_handleSubmit_invalid)
  qed
  have b: "length (username f) < 3 \<or> length (password f) < 6 \<or>
           (\<not> isLogin f \<and> \<not> js_includes (email f) 0x40) \<Longrightarrow> \<not> fst (validateForm f)"
    using a by fastforce
  have calls: "fst (LoginPage_handleSubmit out f) \<noteq> [] \<Longrightarrow> fst (validateForm f)"
    by (simp add: LoginPage_handleSubmit_calls)
  show ?thesis using a b c d calls by blast
qed


theorem validation_gates_auth_call_witness:
  "fst (validateForm \<lparr>isLogin = False, username = js ''bob'', email = js ''a@b'',
                       password = js ''secret'', login_error = []\<rparr>) \<and>
   js_includes (js ''a@b'') 0x40 \<and>
   \<not> fst (validateForm \<lparr>isLogin = False, username = js ''ab'', email = js ''a@b'',
                         password = js ''secret'', login_error = []\<rparr>) \<and>
   fst (LoginPage_handleSubmit Resolved
          \<lparr>isLogin = False, username = js ''ab'', email = js ''a@b'',
           password = js ''secret'', login_error = []\<rparr>) = [] \<and>
   login_error (snd (LoginPage_handleSubmit Resolved
          \<lparr>isLogin = False, username = js ''ab'', email = js ''a@b'',
           password = js ''secret'', login_error = []\<rparr>)) \<noteq> [] \<and>
   fst (validateForm \<lparr>isLogin = True, username = js ''bob'', email = js ''nobody'',
                       password = js ''secret'', login_error = []\<rparr>) =
   fst (validateForm \<lparr>isLogin = True, username = js ''bob'', email = [],
                       password = js ''secret'', login_error = []\<rparr>)"
proof -
  let ?ok = "\<lparr>isLogin = False, username = js ''bob'', email = js ''a@b'',
              password = js ''secret'', login_error = []\<rparr>"
  let ?bad = "\<lparr>isLogin = False, username = js ''ab'', email = js ''a@b'',
               password = js ''secret'', login_error = []\<rparr>"
  let ?login = "\<lparr>isLogin = True, username = js ''bob'', email = [],
                 password = js ''secret'', login_error = []\<rparr>"
  have h1: "fst (validateForm ?ok)"
    by (simp add: validateForm_def js_def trim_def isWhiteSpace_def js_includes_def)
  have h2: "\<not> fst (validateForm ?bad)"
    by (simp add: validateForm_def js_def trim_def isWhiteSpace_def)
  have h3: "isLogin ?login" by simp
  have e: "?login\<lparr>email := js ''nobody''\<rparr> =
           \<lparr>isLogin = True, username = js ''bob'', email = js ''nobody'',
            password = js ''secret'', login_error = []\<rparr>"
    by simp
  from validation_gates_auth_call [of ?ok Resolved] h1
  have "js_includes (email ?ok) 0x40" by simp
  moreover from validation_gates_auth_call [of ?bad Resolved] h2
  have "fst (LoginPage_handleSubmit Resolved ?bad) = [] \<and>
        login_error (snd (LoginPage_handleSubmit Resolved ?bad)) \<noteq> []"
    by blast
  moreover from validation_gates_auth_call [of ?login Resolved "js ''nobody''"] h3
  have "fst (validateForm (?login\<lparr>email := js ''nobody''\<rparr>)) = fst (validateForm ?login)"
    by blast
  ultimately show ?thesis using h1 h2 e by simp
qed

section \<open>app/page.tsx: the redirect\<close>

lemma Home_run_length: "length (Home_run h rs) = length rs"
  by (induction rs arbitrary: h) (auto split: prod.splits)

lemma Home_after_snoc:
  "Home_after h (rs @ [(a, router)]) = snd (snd (Home_render a router (Home_after h rs)))"
  by (induction rs arbitrary: h) auto

lemma Home_run_snoc:
  "Home_run h (rs @ [(a, router)]) =
     Home_run h rs @ [(fst (Home_render a router (Home_after h rs)),
                       fst (snd (Home_render a router (Home_after h rs))))]"
  by (induction rs arbitrary: h) (auto split: prod.splits)

lemma Home_after_deps:
  "rs \<noteq> [] \<Longrightarrow>
   home_deps (Home_after h rs) = Some (isAuthenticated (fst (last rs)), snd (last rs))"
proof (induction rs rule: rev_induct)
  case Nil
  then show ?case by simp
next
  case (snoc x xs)
  obtain a router where x: "x = (a, router)" by (cases x)
  show ?case
  proof (cases "xs = []")
    case True
    then show ?thesis
      by (simp add: x Home_render_def deps_changed_def split: option.splits)
  next
    case False
    with snoc.IH show ?thesis
      by (simp add: x Home_after_snoc Home_render_def deps_changed_def)
  qed
qed


lemma Home_run_redirects:
  "rs \<noteq> [] \<Longrightarrow> \<not> isAuthenticated (fst (last rs)) \<Longrightarrow>
   \<exists>j < length rs. js ''/login'' \<in> set (snd (Home_run home_init rs ! j)) \<and>
                    (\<forall>k < length rs. j \<le> k \<longrightarrow> \<not> isAuthenticated (fst (rs ! k)))"
proof (induction rs rule: rev_induct)
  case Nil
  then show ?case by simp
next
  case (snoc x xs)
  obtain a router where x: "x = (a, router)" by (cases x)
  from snoc.prems have na: "\<not> isAuthenticated a" by (simp add: x)
  let ?h = "Home_after home_init xs"
  let ?n = "length xs"
  have len: "length (Home_run home_init xs) = ?n" by (rule Home_run_length)
  show ?case
  proof (cases "deps_changed (home_deps ?h) (isAuthenticated a, router)")
    case True
    with na have "js ''/login'' \<in> set (snd (Home_run home_init (xs @ [x]) ! ?n))"
      by (simp add: x Home_run_snoc nth_append len Home_render_def Home_effect_def)
    moreover have "\<forall>k < length (xs @ [x]). ?n \<le> k \<longrightarrow> \<not> isAuthenticated (fst ((xs @ [x]) ! k))"
      using na by (auto simp: x nth_append)
    ultimately show ?thesis by (intro exI [of _ ?n]) simp
  next
    case False
    then have ne: "xs \<noteq> []"
      by (cases xs) (auto simp: home_init_def deps_changed_def)
    with False have "\<not> isAuthenticated (fst (last xs))"
      using na by (simp add: Home_after_deps deps_changed_def)
    with ne snoc.IH obtain j where j: "j < ?n"
        "js ''/login'' \<in> set (snd (Home_run home_init xs ! j))"
        "\<forall>k < ?n. j \<le> k \<longrightarrow> \<not> isAuthenticated (fst (xs ! k))"
      by blast
    from j(1,2) have "js ''/login'' \<in> set (snd (Home_run home_init (xs @ [x]) ! j))"
      by (simp add: x Home_run_snoc nth_append len)
    moreover have "\<forall>k < length (xs @ [x]). j \<le> k \<longrightarrow> \<not> isAuthenticated (fst ((xs @ [x]) ! k))"
      using j(3) na by (auto simp: x nth_append less_Suc_eq)
    ultimately show ?thesis using j(1) by (intro exI [of _ j]) simp
  qed
qed


text \<open>
  C7, as amended. When the viewer is not authenticated and the auth state has finished
  loading, the dashboard renders nothing. The render itself asks for the navigation to
  "/login" exactly when it is the first render or when \<open>isAuthenticated\<close> or the router
  differ from the previous render; a render with unchanged dependencies asks for none,
  and then an earlier render has asked for it, since which the viewer has not been
  authenticated.
\<close>

theorem unauthenticated_dashboard_redirects:
  assumes "\<not> isAuthenticated a" and "\<not> isLoading a"
  shows "fst (Home_render a router h) = Nothing \<and>
         Home_render a router home_init =
           (Nothing, [js ''/login''], home_init\<lparr>home_deps := Some (False, router)\<rparr>) \<and>
         (deps_changed (home_deps h) (isAuthenticated a, router) \<longrightarrow>
            fst (snd (Home_render a router h)) = [js ''/login'']) \<and>
         (\<not> deps_changed (home_deps h) (isAuthenticated a, router) \<longrightarrow>
            fst (snd (Home_render a router h)) = []) \<and>
         fst (last (Home_run home_init (rs @ [(a, router)]))) = Nothing \<and>
         (\<exists>j < length (rs @ [(a, router)]).
            js ''/login'' \<in> set (snd (Home_run home_init (rs @ [(a, router)]) ! j)) \<and>
            (\<forall>k < length (rs @ [(a, router)]).
               j \<le> k \<longrightarrow> \<not> isAuthenticated (fst ((rs @ [(a, router)]) ! k))))"
proof -
  have v: "fst (Home_render a router h') = Nothing" for h'
    using assms by (simp add: Home_render_def Home_view_def)
  have m: "Home_render a router home_init =
             (Nothing, [js ''/login''], home_init\<lparr>home_deps := Some (False, router)\<rparr>)"
    using assms
    by (simp add: Home_render_def Home_view_def Home_effect_def deps_changed_def home_init_def)
  have c: "deps_changed (home_deps h) (isAuthenticated a, router) \<Longrightarrow>
           fst (snd (Home_render a router h)) = [js ''/login'']"
    using assms by (simp add: Home_render_def Home_effect_def)
  have u: "\<not> deps_changed (home_deps h) (isAuthenticated a, router) \<Longrightarrow>
           fst (snd (Home_render a router h)) = []"
    by (simp add: Home_render_def)
  have l: "fst (last (Home_run home_init (rs @ [(a, router)]))) = Nothing"
    by (simp add: Home_run_snoc v)
  have r: "\<exists>j < length (rs @ [(a, router)]).
            js ''/login'' \<in> set (snd (Home_run home_init (rs @ [(a, router)]) ! j)) \<and>
            (\<forall>k < length (rs @ [(a, router)]).
               j \<le> k \<longrightarrow> \<not> isAuthenticated (fst ((rs @ [(a, router)]) ! k)))"
    using assms(1) by (intro Home_run_redirects) simp_all
  from v m c u l r show ?thesis by blast
qed

theorem unauthenticated_dashboard_redirects_witness:
  "\<not> isAuthenticated \<lparr>user = None, isAuthenticated = False, isLoading = False\<rparr> \<and>
   \<not> isLoading \<lparr>user = None, isAuthenticated = False, isLoading = False\<rparr> \<and>
   Home_render \<lparr>user = None, isAuthenticated = False, isLoading = False\<rparr> 0 home_init =
     (Nothing, [js ''/login''], home_init\<lparr>home_deps := Some (False, 0)\<rparr>) \<and>
   Home_run home_init
     [(\<lparr>user = None, isAuthenticated = False, isLoading = True\<rparr>, 0),
      (\<lparr>user = None, isAuthenticated = False, isLoading = False\<rparr>, 0)] =
     [(Spinner, [js ''/login'']), (Nothing, [])] \<and>
   \<not> deps_changed (home_deps (home_init\<lparr>home_deps := Some (False, 0)\<rparr>))
        (isAuthenticated \<lparr>user = None, isAuthenticated = False, isLoading = False\<rparr>, 0::nat) \<and>
   fst (snd (Home_render \<lparr>user = None, isAuthenticated = False, isLoading = False\<rparr> 0
               (home_init\<lparr>home_deps := Some (False, 0)\<rparr>))) = []"
proof -
  let ?a = "\<lparr>user = None, isAuthenticated = False, isLoading = False\<rparr>"
  have h1: "\<not> isAuthenticated ?a" and h2: "\<not> isLoading ?a" by simp_all
  have same: "\<not> deps_changed (home_deps (home_init\<lparr>home_deps := Some (False, 0)\<rparr>))
                  (isAuthenticated ?a, 0::nat)"
    by (simp add: deps_changed_def)
  from unauthenticated_dashboard_redirects
         [OF h1 h2, of 0 "home_init\<lparr>home_deps := Some (False, 0)\<rparr>"] same
  have quiet: "fst (snd (Home_render ?a 0 (home_init\<lparr>home_deps := Some (False, 0)\<rparr>))) = []"
    by blast
  have run: "Home_run home_init
     [(\<lparr>user = None, isAuthenticated = False, isLoading = True\<rparr>, 0), (?a, 0)] =
     [(Spinner, [js ''/login'']), (Nothing, [])]"
    by (simp add: Home_render_def Home_view_def Home_effect_def deps_changed_def home_init_def)
  have ch: "deps_changed (home_deps home_init) (isAuthenticated ?a, 0::nat)"
    by (simp add: deps_changed_def home_init_def)
  from unauthenticated_dashboard_redirects
         [OF h1 h2, of 0 home_init "[(\<lparr>user = None, isAuthenticated = False, isLoading = True\<rparr>, 0)]"]
       ch
  have "Home_render ?a 0 home_init =
          (Nothing, [js ''/login''], home_init\<lparr>home_deps := Some (False, 0)\<rparr>)"
    by blast
  with h1 h2 run same quiet show ?thesis by blast
qed

text \<open>
  C7, as first stated, says that every render with an unauthenticated viewer and
  finished loading asks for the navigation. It does not: when the page starts with the
  auth state still loading, the effect runs in that first render and pushes "/login"
  there; the next render, unauthenticated and no longer loading, has the same
  dependencies, so its effect does not run and it pushes nothing.
\<close>

theorem unauthenticated_rerender_pushes_nothing:
  "\<not> isAuthenticated \<lparr>user = None, isAuthenticated = False, isLoading = False\<rparr> \<and>
   \<not> isLoading \<lparr>user = None, isAuthenticated = False, isLoading = False\<rparr> \<and>
   Home_after home_init [(\<lparr>user = None, isAuthenticated = False, isLoading = True\<rparr>, 0)] =
     home_init\<lparr>home_deps := Some (False, 0)\<rparr> \<and>
   Home_render \<lparr>user = None, isAuthenticated = False, isLoading = False\<rparr> 0
     (Home_after home_init [(\<lparr>user = None, isAuthenticated = False, isLoading = True\<rparr>, 0)]) =
     (Nothing, [], home_init\<lparr>home_deps := Some (False, 0)\<rparr>) \<and>
   js ''/login'' \<notin> set (fst (snd
     (Home_render \<lparr>user = None, isAuthenticated = False, isLoading = False\<rparr> 0
        (Home_after home_init
           [(\<lparr>user = None, isAuthenticated = False, isLoading = True\<rparr>, 0)]))))"
  by (simp add: Home_render_def Home_view_def Home_effect_def deps_changed_def home_init_def)

section \<open>Discussion.tsx: polling\<close>

lemma timer_inv_init: "timer_inv world_init"
  by (simp add: timer_inv_def world_init_def form_shown_def)

lemma timer_inv_step:
  assumes "timer_inv w" and "step w e = Some w'"
  shows "timer_inv w'"
  using assms unfolding timer_inv_def form_shown_def
  by (cases e; cases "phase w")
     (auto simp: step_def run_effect_def run_cleanup_def clearInterval_def setInterval_def
        fetchMessages_call_def deps_changed_def form_shown_def Let_def
        split: if_splits option.splits prod.splits pending.splits outcome.splits)

lemma timer_inv_run: "timer_inv w \<Longrightarrow> run w es = Some w' \<Longrightarrow> timer_inv w'"
proof (induction es arbitrary: w)
  case Nil
  then show ?case by simp
next
  case (Cons e es)
  then show ?case
    by (auto split: option.splits dest: timer_inv_step)
qed

lemma Tick_enabled_iff: "step w (Tick h) \<noteq> None \<longleftrightarrow> h \<in> fst ` set (timers w)"
proof (cases "find (\<lambda>t. fst t = h) (timers w)")
  case None
  then have "h \<notin> fst ` set (timers w)" by (auto simp: find_None_iff)
  moreover from None have "step w (Tick h) = None" by (simp add: step_def)
  ultimately show ?thesis by simp
next
  case (Some t)
  then obtain i where "i < length (timers w)" "fst (timers w ! i) = h"
    by (auto simp: find_Some_iff)
  then have "h \<in> fst ` set (timers w)" by (metis image_eqI nth_mem)
  with Some show ?thesis by (simp add: step_def split: prod.splits)
qed

lemma quiet_step:
  assumes "timer_inv w" and "\<not> form_shown w" and "step w e = Some w'"
    and "\<forall>a. e = Render a \<longrightarrow> \<not> isAuthenticated a"
  shows "sent w' = sent w \<and> \<not> form_shown w'"
  using assms unfolding timer_inv_def form_shown_def
  by (cases e; cases "phase w")
     (auto simp: step_def run_effect_def run_cleanup_def clearInterval_def
        deps_changed_def form_shown_def Let_def
        split: if_splits option.splits prod.splits pending.splits outcome.splits)

lemma quiet_run:
  "timer_inv w \<Longrightarrow> \<not> form_shown w \<Longrightarrow> run w es = Some w' \<Longrightarrow>
   \<forall>a. Render a \<in> set es \<longrightarrow> \<not> isAuthenticated a \<Longrightarrow>
   sent w' = sent w \<and> \<not> form_shown w'"
proof (induction es arbitrary: w)
  case Nil
  then show ?case by simp
next
  case (Cons e es)
  from Cons.prems(3) obtain w1 where s: "step w e = Some w1" and r: "run w1 es = Some w'"
    by (auto split: option.splits)
  from Cons.prems(4) have e: "\<forall>a. e = Render a \<longrightarrow> \<not> isAuthenticated a" by simp
  from quiet_step [OF Cons.prems(1,2) s e] have q: "sent w1 = sent w" "\<not> form_shown w1"
    by simp_all
  from Cons.prems(1) s have i: "timer_inv w1" by (rule timer_inv_step)
  from Cons.prems(4) have "\<forall>a. Render a \<in> set es \<longrightarrow> \<not> isAuthenticated a" by simp
  from Cons.IH [OF i q(2) r this] q(1) show ?case by simp
qed

text \<open>
  C5. In every state the component can reach, while it is mounted with an authenticated
  viewer exactly one interval is registered, with a delay of 10000 ms, and its tick
  calls \<open>fetchMessages\<close>; in every other state (never authenticated, logged out, torn
  down) no interval is registered and no tick can happen. From such a state, as long as
  the viewer does not log in again, no request at all is issued.
\<close>

theorem polling_stops_after_logout:
  assumes "run world_init es = Some w"
  shows "(phase w = Mounted \<and> isAuthenticated (ctx w) \<longrightarrow>
            (\<exists>h u. timers w = [(h, 10000, u)] \<and> cleanup w = Some h \<and>
                   step w (Tick h) = Some (fetchMessages_call u w))) \<and>
         (\<not> (phase w = Mounted \<and> isAuthenticated (ctx w)) \<longrightarrow>
            timers w = [] \<and> (\<forall>h. step w (Tick h) = None)) \<and>
         (\<not> (phase w = Mounted \<and> isAuthenticated (ctx w)) \<and> run w es' = Some w' \<and>
          (\<forall>a. Render a \<in> set es' \<longrightarrow> \<not> isAuthenticated a) \<longrightarrow>
            sent w' = sent w \<and> timers w' = [] \<and> (\<forall>h. step w' (Tick h) = None))"
proof -
  from assms have inv: "timer_inv w"
    using timer_inv_init by (rule timer_inv_run [rotated])
  have off: "timers v = [] \<and> (\<forall>h. step v (Tick h) = None)"
    if "timer_inv v" and "\<not> form_shown v" for v
    using that by (simp add: timer_inv_def step_def)
  have on: "\<exists>h u. timers w = [(h, 10000, u)] \<and> cleanup w = Some h \<and>
                  step w (Tick h) = Some (fetchMessages_call u w)"
    if "form_shown w"
    using that inv by (auto simp: timer_inv_def step_def)
  have later: "sent w' = sent w \<and> timers w' = [] \<and> (\<forall>h. step w' (Tick h) = None)"
    if "\<not> form_shown w" and "run w es' = Some w'"
      and "\<forall>a. Render a \<in> set es' \<longrightarrow> \<not> isAuthenticated a"
  proof -
    from quiet_run [OF inv that] have "sent w' = sent w" "\<not> form_shown w'" by simp_all
    moreover from inv that(2) have "timer_inv w'" by (rule timer_inv_run)
    ultimately show ?thesis using off by simp
  qed
  from on off [OF inv] later show ?thesis
    unfolding form_shown_def by blast
qed



theorem polling_stops_after_logout_witness:
  "run world_init [Render \<lparr>user = None, isAuthenticated = True, isLoading = False\<rparr>] =
     Some \<lparr>view = discussion_init, phase = Mounted,
           ctx = \<lparr>user = None, isAuthenticated = True, isLoading = False\<rparr>,
           effect_deps = Some True, cleanup = Some 0, timers = [(0, 10000, None)],
           next_handle = 1, sent = [fetchMessages_request None], inflight = [PendingFetch]\<rparr> \<and>
   run world_init [Render \<lparr>user = None, isAuthenticated = True, isLoading = False\<rparr>,
                   Render \<lparr>user = None, isAuthenticated = False, isLoading = False\<rparr>] =
     Some \<lparr>view = discussion_init, phase = Mounted,
           ctx = \<lparr>user = None, isAuthenticated = False, isLoading = False\<rparr>,
           effect_deps = Some False, cleanup = None, timers = [],
           next_handle = 1, sent = [fetchMessages_request None], inflight = [PendingFetch]\<rparr> \<and>
   step \<lparr>view = discussion_init, phase = Mounted,
         ctx = \<lparr>user = None, isAuthenticated = True, isLoading = False\<rparr>,
         effect_deps = Some True, cleanup = Some 0, timers = [(0, 10000, None)],
         next_handle = 1, sent = [fetchMessages_request None], inflight = [PendingFetch]\<rparr>
        (Tick 0) \<noteq> None \<and>
   step \<lparr>view = discussion_init, phase = Mounted,
         ctx = \<lparr>user = None, isAuthenticated = False, isLoading = False\<rparr>,
         effect_deps = Some False, cleanup = None, timers = [],
         next_handle = 1, sent = [fetchMessages_request None], inflight = [PendingFetch]\<rparr>
        (Tick 0) = None \<and>
   map_option sent
     (run \<lparr>view = discussion_init, phase = Mounted,
           ctx = \<lparr>user = None, isAuthenticated = False, isLoading = False\<rparr>,
           effect_deps = Some False, cleanup = None, timers = [],
           next_handle = 1, sent = [fetchMessages_request None], inflight = [PendingFetch]\<rparr>
        [Settle 0 (FetchOutcome NetworkError), Unmount]) = Some [fetchMessages_request None]"
proof -
  let ?in = "\<lparr>user = None, isAuthenticated = True, isLoading = False\<rparr>"
  let ?out = "\<lparr>user = None, isAuthenticated = False, isLoading = False\<rparr>"
  let ?w1 = "\<lparr>view = discussion_init, phase = Mounted, ctx = ?in,
             effect_deps = Some True, cleanup = Some 0, timers = [(0, 10000, None)],
             next_handle = 1, sent = [fetchMessages_request None], inflight = [PendingFetch]\<rparr>"
  let ?w2 = "\<lparr>view = discussion_init, phase = Mounted, ctx = ?out,
             effect_deps = Some False, cleanup = None, timers = [],
             next_handle = 1, sent = [fetchMessages_request None], inflight = [PendingFetch]\<rparr>"
  let ?w3 = "\<lparr>view = fetchMessages_settle NetworkError discussion_init, phase = Unmounted,
             ctx = ?out, effect_deps = Some False, cleanup = None, timers = [],
             next_handle = 1, sent = [fetchMessages_request None], inflight = []\<rparr>"
  have s1: "step world_init (Render ?in) = Some ?w1"
    by (simp add: step_def world_init_def deps_changed_def run_cleanup_def run_effect_def
          setInterval_def fetchMessages_call_def)
  then have r1: "run world_init [Render ?in] = Some ?w1"
    by simp
  have s2: "step ?w1 (Render ?out) = Some ?w2"
    by (simp add: step_def deps_changed_def run_cleanup_def run_effect_def clearInterval_def)
  from s1 s2 have r2: "run world_init [Render ?in, Render ?out] = Some ?w2"
    by simp
  have r3: "run ?w2 [Settle 0 (FetchOutcome NetworkError), Unmount] = Some ?w3"
    by (simp add: step_def run_cleanup_def remove_nth_def)
  have q: "\<forall>a. Render a \<in> set [Settle 0 (FetchOutcome NetworkError), Unmount] \<longrightarrow>
               \<not> isAuthenticated a"
    by simp
  from polling_stops_after_logout [OF r1]
  have t1: "step ?w1 (Tick 0) \<noteq> None" by auto
  from polling_stops_after_logout [OF r2, of "[Settle 0 (FetchOutcome NetworkError), Unmount]" ?w3]
       r3 q
  have t2: "step ?w2 (Tick 0) = None" and t3: "sent ?w3 = sent ?w2" by simp_all
  from r1 r2 r3 t1 t2 t3 show ?thesis by simp
qed

section \<open>Discussion.tsx: the error string\<close>

lemma run_append:
  "run w (es @ es') = (case run w es of None \<Rightarrow> None | Some w1 \<Rightarrow> run w1 es')"
  by (induction es arbitrary: w) (auto split: option.splits)

lemma step_error:
  assumes "step w e = Some w'" and "error (view w') \<noteq> error (view w)"
  shows "(\<exists>i r. e = Settle i (FetchOutcome r) \<and> \<not> succeeded r \<and>
                 error (view w') = js ''Failed to load messages'') \<or>
         (\<exists>i r. e = Settle i (SendOutcome r) \<and> \<not> succeeded r \<and>
                 error (view w') = js ''Failed to send message'')"
proof (cases e)
  case (Settle i out)
  show ?thesis
  proof (cases out)
    case (FetchOutcome r)
    with assms Settle have v: "view w' = fetchMessages_settle r (view w)"
      by (auto simp: step_def split: if_splits pending.splits)
    show ?thesis
    proof (cases "succeeded r")
      case True
      then obtain d where "r = Response True (Some d)" by (auto simp: succeeded_iff)
      with v assms(2) show ?thesis by (simp add: fetchMessages_settle_def)
    next
      case False
      with v Settle FetchOutcome show ?thesis by (simp add: fetchMessages_settle_failed)
    qed
  next
    case (SendOutcome r)
    with assms Settle obtain c where v: "view w' = handleSubmit_settle c r (view w)"
      by (auto simp: step_def split: if_splits pending.splits)
    show ?thesis
    proof (cases "succeeded r")
      case True
      then obtain d where "r = Response True (Some d)" by (auto simp: succeeded_iff)
      with v assms(2) show ?thesis by (simp add: handleSubmit_settle_def)
    next
      case False
      with v Settle SendOutcome show ?thesis by (simp add: handleSubmit_settle_failed)
    qed
  qed
qed (use assms in \<open>auto simp: step_def run_effect_def run_cleanup_def clearInterval_def
       setInterval_def fetchMessages_call_def Let_def
       split: if_splits option.splits prod.splits\<close>)

lemma step_error_stays: "step w e = Some w' \<Longrightarrow> error (view w) \<noteq> [] \<Longrightarrow> error (view w') \<noteq> []"
  using step_error [of w e w'] by (cases "error (view w') = error (view w)") (auto simp: js_def)

lemma run_error_stays: "run w es = Some w' \<Longrightarrow> error (view w) \<noteq> [] \<Longrightarrow> error (view w') \<noteq> []"
proof (induction es arbitrary: w)
  case Nil
  then show ?case by simp
next
  case (Cons e es)
  then show ?case by (auto split: option.splits dest: step_error_stays)
qed

text \<open>
  C9. A successful fetch and a successful send leave the error string as it is. Over the
  whole life of the component the error string changes only when a request fails, and
  then to the message of that failure; so once set it is never empty again.
\<close>

theorem error_survives_success:
  "error (fetchMessages_settle (Response True (Some d)) st) = error st \<and>
   error (handleSubmit_settle c (Response True (Some m)) st) = error st \<and>
   error (snd (handleSubmit u (Response True (Some m)) st)) = error st \<and>
   (step w e = Some w' \<and> error (view w') \<noteq> error (view w) \<longrightarrow>
      (\<exists>i r. e = Settle i (FetchOutcome r) \<and> \<not> succeeded r \<and>
             error (view w') = js ''Failed to load messages'') \<or>
      (\<exists>i r. e = Settle i (SendOutcome r) \<and> \<not> succeeded r \<and>
             error (view w') = js ''Failed to send message'')) \<and>
   (run w es = Some w' \<and> error (view w) \<noteq> [] \<longrightarrow> error (view w') \<noteq> [])"
proof -
  have a: "error (fetchMessages_settle (Response True (Some d)) st) = error st"
    by (simp add: fetchMessages_settle_def)
  have b: "error (handleSubmit_settle c' (Response True (Some m)) st) = error st" for c'
    by (simp add: handleSubmit_settle_def)
  have c: "error (snd (handleSubmit u (Response True (Some m)) st)) = error st"
    by (simp add: handleSubmit_def b split: option.splits)
  from a b c step_error [of w e w'] run_error_stays [of w es w'] show ?thesis
    by blast
qed


theorem error_survives_success_witness:
  "run world_init [Render \<lparr>user = None, isAuthenticated = True, isLoading = False\<rparr>, Tick 0,
                   Settle 0 (FetchOutcome NetworkError)] =
     Some \<lparr>view = \<lparr>messages = [], newMessage = [], error = js ''Failed to load messages''\<rparr>,
           phase = Mounted, ctx = \<lparr>user = None, isAuthenticated = True, isLoading = False\<rparr>,
           effect_deps = Some True, cleanup = Some 0, timers = [(0, 10000, None)],
           next_handle = 1, sent = [fetchMessages_request None, fetchMessages_request None],
           inflight = [PendingFetch]\<rparr> \<and>
   run \<lparr>view = \<lparr>messages = [], newMessage = [], error = js ''Failed to load messages''\<rparr>,
        phase = Mounted, ctx = \<lparr>user = None, isAuthenticated = True, isLoading = False\<rparr>,
        effect_deps = Some True, cleanup = Some 0, timers = [(0, 10000, None)],
        next_handle = 1, sent = [fetchMessages_request None, fetchMessages_request None],
        inflight = [PendingFetch]\<rparr>
       [Settle 0 (FetchOutcome (Response True (Some [Message 1 [0x68] [0x61] []])))] =
     Some \<lparr>view = \<lparr>messages = [Message 1 [0x68] [0x61] []], newMessage = [],
                    error = js ''Failed to load messages''\<rparr>,
           phase = Mounted, ctx = \<lparr>user = None, isAuthenticated = True, isLoading = False\<rparr>,
           effect_deps = Some True, cleanup = Some 0, timers = [(0, 10000, None)],
           next_handle = 1, sent = [fetchMessages_request None, fetchMessages_request None],
           inflight = []\<rparr> \<and>
   js ''Failed to load messages'' \<noteq> []"
proof -
  let ?in = "\<lparr>user = None, isAuthenticated = True, isLoading = False\<rparr>"
  let ?rq = "[fetchMessages_request None, fetchMessages_request None]"
  let ?w0 = "\<lparr>view = discussion_init, phase = Mounted, ctx = ?in,
             effect_deps = Some True, cleanup = Some 0, timers = [(0, 10000, None)],
             next_handle = 1, sent = ?rq, inflight = [PendingFetch, PendingFetch]\<rparr>"
  let ?w1 = "\<lparr>view = \<lparr>messages = [], newMessage = [], error = js ''Failed to load messages''\<rparr>,
             phase = Mounted, ctx = ?in,
             effect_deps = Some True, cleanup = Some 0, timers = [(0, 10000, None)],
             next_handle = 1, sent = ?rq, inflight = [PendingFetch]\<rparr>"
  let ?w2 = "\<lparr>view = \<lparr>messages = [Message 1 [0x68] [0x61] []], newMessage = [],
                     error = js ''Failed to load messages''\<rparr>,
             phase = Mounted, ctx = ?in,
             effect_deps = Some True, cleanup = Some 0, timers = [(0, 10000, None)],
             next_handle = 1, sent = ?rq, inflight = []\<rparr>"
  let ?es = "[Settle 0 (FetchOutcome (Response True (Some [Message 1 [0x68] [0x61] []])))]"
  have r0: "run world_init [Render ?in, Tick 0] = Some ?w0"
    by (simp add: step_def world_init_def deps_changed_def run_cleanup_def run_effect_def
          setInterval_def fetchMessages_call_def)
  have s1: "step ?w0 (Settle 0 (FetchOutcome NetworkError)) = Some ?w1"
    by (simp add: step_def remove_nth_def fetchMessages_settle_def discussion_init_def)
  have ch: "error (view ?w1) \<noteq> error (view ?w0)"
    by (simp add: discussion_init_def js_def)
  have r2: "run ?w1 ?es = Some ?w2"
    by (simp add: step_def remove_nth_def fetchMessages_settle_def)
  from error_survives_success
         [where w = ?w0 and e = "Settle 0 (FetchOutcome NetworkError)" and w' = ?w1] s1 ch
  have e1: "error (view ?w1) = js ''Failed to load messages''" by simp
  from ch have ne: "error (view ?w1) \<noteq> []" by (simp add: discussion_init_def)
  from error_survives_success [where w = ?w1 and es = ?es and w' = ?w2] r2 ne
  have e2: "error (view ?w2) \<noteq> []" by blast
  have "run world_init ([Render ?in, Tick 0] @ [Settle 0 (FetchOutcome NetworkError)])
          = Some ?w1"
    unfolding run_append r0 using s1 by simp
  then have "run world_init [Render ?in, Tick 0, Settle 0 (FetchOutcome NetworkError)]
          = Some ?w1"
    by (simp only: append.simps)
  with r2 e1 e2 show ?thesis by simp
qed

end
